theory Spec2Isabelle
  imports Main
begin

section \<open>JavaScript values used by the lightbox\<close>

text \<open>
  The lightbox part of \<^verbatim>\<open>script.js\<close> (the first immediately-invoked function, from
  \<^verbatim>\<open>scanGallery\<close> to the public \<^verbatim>\<open>window.galleryLightbox\<close> handle) is embedded here.
  Indices are JavaScript numbers holding integers; they are modelled as \<^typ>\<open>int\<close>.
  All the arithmetic the script performs on them (one addition and a remainder by the
  list length) is exact on doubles for integer arguments.
\<close>

datatype js_error = TypeError

text \<open>
  A callback either returns or throws. Whatever it wrote before throwing stays written,
  so both outcomes carry the state.
\<close>

datatype 'a outcome = Done 'a | Raised js_error 'a

fun state_of :: "'a outcome \<Rightarrow> 'a" where
  "state_of (Done s) = s"
| "state_of (Raised e s) = s"

fun has_thrown :: "'a outcome \<Rightarrow> bool" where
  "has_thrown (Done s) = False"
| "has_thrown (Raised e s) = True"

text \<open>
  The operator \<^verbatim>\<open>%\<close> of JavaScript truncates towards zero: the result has the sign
  of the dividend. Every use in the script has the list length as divisor; the callers
  \<^verbatim>\<open>openAt\<close>, \<^verbatim>\<open>next\<close> and \<^verbatim>\<open>prev\<close> test that it is not zero first, and
  \<^verbatim>\<open>preloadNeighbors\<close>, which does not, is modelled with the zero case written out.
\<close>

definition js_rem :: "int \<Rightarrow> int \<Rightarrow> int" where
  "js_rem a b = sgn a * (\<bar>a\<bar> mod \<bar>b\<bar>)"

text \<open>Reading \<^verbatim>\<open>xs[n]\<close>: out of range the value is \<^verbatim>\<open>undefined\<close>, here \<open>None\<close>.\<close>

definition js_index :: "'a list \<Rightarrow> int \<Rightarrow> 'a option" where
  "js_index xs n = (if 0 \<le> n \<and> n < int (length xs) then Some (xs ! nat n) else None)"

text \<open>\<^verbatim>\<open>a || b\<close> on strings: the empty string is falsy.\<close>

definition js_or :: "string \<Rightarrow> string \<Rightarrow> string" where
  "js_or a b = (if a = [] then b else a)"

text \<open>Decimal rendering of a number inside a template literal.\<close>

definition digit_char :: "nat \<Rightarrow> char" where
  "digit_char d = ''0123456789'' ! d"

fun string_of_nat :: "nat \<Rightarrow> string" where
  "string_of_nat n =
     (if n < 10 then [digit_char n] else string_of_nat (n div 10) @ [digit_char (n mod 10)])"

declare string_of_nat.simps [simp del]

section \<open>The page\<close>

text \<open>
  An \<^verbatim>\<open>img\<close> element as the scan reads it: \<^verbatim>\<open>img.src\<close>, \<^verbatim>\<open>img.dataset.large\<close>
  (absent when the element has no \<^verbatim>\<open>data-large\<close> attribute) and the \<^verbatim>\<open>alt\<close> attribute
  (the property \<^verbatim>\<open>img.alt\<close> is the empty string when the attribute is missing).
\<close>

record img_elem =
  img_src :: string
  data_large :: "string option"
  alt_attr :: "string option"

definition img_alt :: "img_elem \<Rightarrow> string" where
  "img_alt im = (case alt_attr im of None \<Rightarrow> [] | Some a \<Rightarrow> a)"

text \<open>
  A \<^verbatim>\<open>.gallery-item\<close> element: its identity and the first \<^verbatim>\<open>img\<close> below it, if any
  (\<^verbatim>\<open>fig.querySelector('img')\<close>).
\<close>

record gitem =
  elem :: nat
  img_child :: "img_elem option"

text \<open>The objects pushed onto \<^verbatim>\<open>images\<close>.\<close>

record entry =
  thumb :: string
  large :: string
  alt :: string
  el :: nat

text \<open>The two listeners a figure receives; each closure captures the loop index.\<close>

datatype handler = OnClick nat | OnKeydown nat

text \<open>Which of the optional nodes and browser features exist; fixed when the script loads.\<close>

record env =
  hasGallery :: bool
  hasLb :: bool
  hasLbImage :: bool
  hasLbCaption :: bool
  hasMutationObserver :: bool

text \<open>
  The module's variables (\<open>figures\<close>, \<open>images\<close>, \<open>current\<close>, \<open>isOpen\<close>) together with
  what the script writes on the page: the \<^verbatim>\<open>_bound\<close> flag and the listeners of each
  element, the pending \<^verbatim>\<open>setTimeout\<close> callbacks of \<^verbatim>\<open>update\<close> (each with the entry
  \<^verbatim>\<open>it\<close> it captured), the lightbox image, caption and visibility, the body's overflow
  style, and the log of full-size images requested by the preloader.
\<close>

record page =
  figures :: "nat list"
  images :: "entry list"
  current :: int
  isOpen :: bool
  bound :: "nat \<Rightarrow> bool"
  listeners :: "nat \<Rightarrow> handler list"
  timers :: "entry option list"
  lbSrc :: string
  lbAlt :: string
  lbCaptionText :: string
  lbOpacity :: string
  ariaHidden :: string
  bodyOverflow :: string
  fetched :: "string list"

definition initial :: page where
  "initial = \<lparr>figures = [], images = [], current = 0, isOpen = False,
     bound = (\<lambda>_. False), listeners = (\<lambda>_. []), timers = [],
     lbSrc = [], lbAlt = [], lbCaptionText = [], lbOpacity = [],
     ariaHidden = ''true'', bodyOverflow = [], fetched = []\<rparr>"

section \<open>Gallery index\<close>

text \<open>
  The first \<^verbatim>\<open>forEach\<close> of \<^verbatim>\<open>scanGallery\<close>, over all matching nodes with their index
  \<open>i\<close>: a node without an image returns early, the others are pushed.
\<close>

definition make_entry :: "nat \<Rightarrow> gitem \<Rightarrow> img_elem \<Rightarrow> entry" where
  "make_entry i fig img =
     \<lparr>thumb = img_src img,
      large = (case data_large img of None \<Rightarrow> img_src img | Some l \<Rightarrow> js_or l (img_src img)),
      alt = js_or (img_alt img) (''Image '' @ string_of_nat (i + 1)),
      el = elem fig\<rparr>"

fun scan_nodes :: "nat \<Rightarrow> gitem list \<Rightarrow> page \<Rightarrow> page" where
  "scan_nodes i [] s = s"
| "scan_nodes i (fig # rest) s =
     (case img_child fig of
        None \<Rightarrow> scan_nodes (Suc i) rest s
      | Some img \<Rightarrow>
          scan_nodes (Suc i) rest
            (s\<lparr>figures := figures s @ [elem fig],
               images := images s @ [make_entry i fig img]\<rparr>))"

text \<open>
  The second \<^verbatim>\<open>forEach\<close>, over \<open>figures\<close>: an element whose \<^verbatim>\<open>_bound\<close> flag is unset
  gets a click and a keydown listener and the flag. \<^verbatim>\<open>addEventListener\<close> is given a
  new closure each time, so it never recognises a listener as already present. The
  assignment to \<^verbatim>\<open>tabIndex\<close> in the same branch is not modelled: nothing reads it.
\<close>

definition bind_one :: "nat \<Rightarrow> nat \<Rightarrow> page \<Rightarrow> page" where
  "bind_one i fig s =
     (if bound s fig then s
      else s\<lparr>listeners := (listeners s)(fig := listeners s fig @ [OnClick i, OnKeydown i]),
             bound := (bound s)(fig := True)\<rparr>)"

fun bind_figures :: "nat \<Rightarrow> nat list \<Rightarrow> page \<Rightarrow> page" where
  "bind_figures i [] s = s"
| "bind_figures i (fig # rest) s = bind_figures (Suc i) rest (bind_one i fig s)"

text \<open>The argument \<open>nodes\<close> is what \<^verbatim>\<open>querySelectorAll('.gallery-item')\<close> returns now.\<close>

definition scanGallery :: "env \<Rightarrow> gitem list \<Rightarrow> page \<Rightarrow> page" where
  "scanGallery e nodes s =
     (let s0 = s\<lparr>figures := [], images := []\<rparr> in
      if \<not> hasGallery e then s0
      else let s1 = scan_nodes 0 nodes s0 in bind_figures 0 (figures s1) s1)"

definition clear_bound :: "nat \<Rightarrow> page \<Rightarrow> page" where
  "clear_bound f s = s\<lparr>bound := (bound s)(f := False)\<rparr>"

definition refreshGallery :: "env \<Rightarrow> gitem list \<Rightarrow> page \<Rightarrow> page" where
  "refreshGallery e nodes s =
     scanGallery e nodes (if figures s \<noteq> [] then fold clear_bound (figures s) s else s)"

text \<open>The state once the script has loaded: the initial scan of the page.\<close>

definition loaded :: "env \<Rightarrow> gitem list \<Rightarrow> page" where
  "loaded e nodes = scanGallery e nodes initial"

section \<open>Viewer state\<close>

text \<open>
  \<^verbatim>\<open>update\<close> hides the image and schedules the swap; the callback keeps the entry
  \<^verbatim>\<open>images[current]\<close> read at scheduling time. Of the styles it writes, the opacity is
  kept and the constant transition is left out. In \<^verbatim>\<open>openAt\<close> the call of
  \<^verbatim>\<open>lbStage.focus()\<close> sits in a \<^verbatim>\<open>try\<close> with an empty handler and changes none of the
  fields below, so it is left out as well.
\<close>

definition update :: "env \<Rightarrow> page \<Rightarrow> page" where
  "update e s =
     (if images s = [] \<or> \<not> hasLbImage e then s
      else s\<lparr>lbOpacity := ''0'', timers := timers s @ [js_index (images s) (current s)]\<rparr>)"

definition openAt :: "env \<Rightarrow> int \<Rightarrow> page \<Rightarrow> page" where
  "openAt e index s =
     (if images s = [] \<or> \<not> hasLb e then s
      else
        let n = int (length (images s));
            s1 = update e (s\<lparr>current := js_rem (js_rem index n + n) n\<rparr>)
        in s1\<lparr>bodyOverflow := ''hidden'', ariaHidden := ''false'', isOpen := True\<rparr>)"

definition closeLB :: "env \<Rightarrow> page \<Rightarrow> page" where
  "closeLB e s =
     (if \<not> hasLb e then s
      else s\<lparr>ariaHidden := ''true'', bodyOverflow := [], isOpen := False\<rparr>)"

definition nextLB :: "env \<Rightarrow> page \<Rightarrow> page" where
  "nextLB e s =
     (if images s = [] then s
      else update e (s\<lparr>current := js_rem (current s + 1) (int (length (images s)))\<rparr>))"

definition prev :: "env \<Rightarrow> page \<Rightarrow> page" where
  "prev e s =
     (if images s = [] then s
      else update e
        (s\<lparr>current := js_rem (current s - 1 + int (length (images s))) (int (length (images s)))\<rparr>))"

section \<open>Preloader\<close>

text \<open>
  One round of the \<^verbatim>\<open>forEach\<close> over the offsets. With an empty list the remainder is
  \<^verbatim>\<open>NaN\<close>, \<^verbatim>\<open>images[NaN]\<close> is \<^verbatim>\<open>undefined\<close>, and reading \<^verbatim>\<open>.large\<close> from it throws;
  so does an index outside the list.
\<close>

definition preload_one :: "int \<Rightarrow> int \<Rightarrow> page \<Rightarrow> page outcome" where
  "preload_one idx offset s =
     (if images s = [] then Raised TypeError s
      else
        let n = js_rem (idx + offset + int (length (images s))) (int (length (images s)))
        in case js_index (images s) n of
             None \<Rightarrow> Raised TypeError s
           | Some it \<Rightarrow> Done (s\<lparr>fetched := fetched s @ [large it]\<rparr>))"

definition preloadNeighbors :: "int \<Rightarrow> page \<Rightarrow> page outcome" where
  "preloadNeighbors idx s =
     (case preload_one idx (- 1) s of
        Raised x s1 \<Rightarrow> Raised x s1
      | Done s1 \<Rightarrow> preload_one idx 1 s1)"

section \<open>Deferred callbacks and events\<close>

text \<open>
  The callback scheduled by \<^verbatim>\<open>update\<close>: it writes the captured entry to the lightbox
  and preloads around the index that is current when it runs.
\<close>

definition fade :: "env \<Rightarrow> entry option \<Rightarrow> page \<Rightarrow> page outcome" where
  "fade e it s =
     (case it of
        None \<Rightarrow> Raised TypeError s
      | Some x \<Rightarrow>
          preloadNeighbors (current s)
            (s\<lparr>lbSrc := large x, lbAlt := alt x,
               lbCaptionText := (if hasLbCaption e then alt x else lbCaptionText s),
               lbOpacity := ''1''\<rparr>))"

text \<open>Dispatching a click to an element runs its listeners in the order they were added.\<close>

fun run_handler :: "env \<Rightarrow> handler \<Rightarrow> page \<Rightarrow> page" where
  "run_handler e (OnClick i) s = openAt e (int i) s"
| "run_handler e (OnKeydown i) s = s"

datatype op =
    OpenAt int
  | Next
  | Prev
  | Close
  | Refresh "gitem list"
  | Tick
  | SrcChanged
  | Click nat

text \<open>
  The keyboard, pointer and control-button listeners end in the same \<^verbatim>\<open>next\<close>,
  \<^verbatim>\<open>prev\<close> and \<^verbatim>\<open>closeLB\<close>; they are covered by the events of the public handle.

  One event: a call through the public handle (\<open>OpenAt\<close>, \<open>Next\<close>, \<open>Prev\<close>, \<open>Close\<close>,
  \<open>Refresh\<close> with the nodes then on the page), the oldest pending timer firing
  (\<open>Tick\<close>), the observer of the lightbox image's \<^verbatim>\<open>src\<close> attribute (\<open>SrcChanged\<close>), or
  a click on a gallery element.
\<close>

fun exec :: "env \<Rightarrow> op \<Rightarrow> page \<Rightarrow> page outcome" where
  "exec e (OpenAt i) s = Done (openAt e i s)"
| "exec e Next s = Done (nextLB e s)"
| "exec e Prev s = Done (prev e s)"
| "exec e Close s = Done (closeLB e s)"
| "exec e (Refresh nodes) s = Done (refreshGallery e nodes s)"
| "exec e Tick s =
     (case timers s of
        [] \<Rightarrow> Done s
      | it # rest \<Rightarrow> fade e it (s\<lparr>timers := rest\<rparr>))"
| "exec e SrcChanged s =
     (if hasLbImage e \<and> hasMutationObserver e then preloadNeighbors (current s) s else Done s)"
| "exec e (Click fig) s = Done (fold (run_handler e) (listeners s fig) s)"

text \<open>A run of events; an uncaught exception in one callback does not stop the next.\<close>

definition run :: "env \<Rightarrow> op list \<Rightarrow> page \<Rightarrow> page" where
  "run e ops s = fold (\<lambda>x t. state_of (exec e x t)) ops s"

section \<open>Notions used in the statements\<close>

text \<open>The current index is an index of the entry list.\<close>

definition in_range :: "page \<Rightarrow> bool" where
  "in_range s = (0 \<le> current s \<and> current s < int (length (images s)))"

fun is_refresh :: "op \<Rightarrow> bool" where
  "is_refresh (Refresh nodes) = True"
| "is_refresh x = False"

text \<open>
  Where the entry made from node \<open>k\<close> lands in \<open>images\<close>: after the entries of the nodes
  before it that have an image.
\<close>

definition entry_position :: "nat \<Rightarrow> gitem list \<Rightarrow> nat" where
  "entry_position k nodes = length (filter (\<lambda>f. img_child f \<noteq> None) (take k nodes))"

section \<open>Example pages\<close>

definition full_env :: env where
  "full_env = \<lparr>hasGallery = True, hasLb = True, hasLbImage = True, hasLbCaption = True,
     hasMutationObserver = True\<rparr>"

definition no_lb_env :: env where
  "no_lb_env = \<lparr>hasGallery = True, hasLb = False, hasLbImage = False, hasLbCaption = False,
     hasMutationObserver = True\<rparr>"

definition no_image_env :: env where
  "no_image_env = \<lparr>hasGallery = True, hasLb = True, hasLbImage = False, hasLbCaption = False,
     hasMutationObserver = True\<rparr>"

definition three_items :: "gitem list" where
  "three_items =
     [\<lparr>elem = 1, img_child = Some \<lparr>img_src = ''a.jpg'', data_large = Some ''A'', alt_attr = Some ''first''\<rparr>\<rparr>,
      \<lparr>elem = 2, img_child = Some \<lparr>img_src = ''b.jpg'', data_large = Some ''B'', alt_attr = Some ''second''\<rparr>\<rparr>,
      \<lparr>elem = 3, img_child = Some \<lparr>img_src = ''c.jpg'', data_large = Some ''C'', alt_attr = Some ''third''\<rparr>\<rparr>]"

definition one_item :: "gitem list" where
  "one_item =
     [\<lparr>elem = 1, img_child = Some \<lparr>img_src = ''thumb.jpg'', data_large = None, alt_attr = None\<rparr>\<rparr>]"


definition empty_large_item :: "gitem list" where
  "empty_large_item =
     [\<lparr>elem = 1, img_child = Some \<lparr>img_src = ''thumb.jpg'', data_large = Some [], alt_attr = None\<rparr>\<rparr>]"

section \<open>Arithmetic of the wrap-around\<close>

lemma js_rem_nonneg: "0 \<le> a \<Longrightarrow> 0 < b \<Longrightarrow> js_rem a b = a mod b"
  by (cases "a = 0") (simp_all add: js_rem_def)

lemma js_rem_neg: "a < 0 \<Longrightarrow> 0 < b \<Longrightarrow> js_rem a b = - ((- a) mod b)"
  by (simp add: js_rem_def)

lemma js_rem_wrap: "0 < b \<Longrightarrow> js_rem (js_rem i b + b) b = i mod b"
proof (cases "0 \<le> i")
  case True
  assume b: "0 < b"
  with True have "js_rem i b = i mod b" by (rule js_rem_nonneg)
  moreover have "0 \<le> i mod b + b" using b by (simp add: add_nonneg_nonneg)
  ultimately show ?thesis using b by (simp add: js_rem_nonneg)
next
  case False
  assume b: "0 < b"
  from False b have r: "js_rem i b = - ((- i) mod b)" by (simp add: js_rem_neg)
  have "(- i) mod b < b" using b by simp
  then have "0 \<le> - ((- i) mod b) + b" by simp
  then have "js_rem (- ((- i) mod b) + b) b = (- ((- i) mod b) + b) mod b"
    using b by (rule js_rem_nonneg)
  also have "\<dots> = (- ((- i) mod b)) mod b" by simp
  also have "\<dots> = i mod b" by (simp add: mod_minus_eq)
  finally show ?thesis using r by simp
qed

lemma js_rem_succ: "0 \<le> c \<Longrightarrow> 0 < b \<Longrightarrow> js_rem (c + 1) b = (c + 1) mod b"
  by (simp add: js_rem_nonneg)

lemma js_rem_pred: "0 \<le> c \<Longrightarrow> 0 < b \<Longrightarrow> js_rem (c - 1 + b) b = (c - 1) mod b"
proof -
  assume c: "0 \<le> c" and b: "0 < b"
  then have "0 \<le> c - 1 + b" by simp
  then have "js_rem (c - 1 + b) b = (c - 1 + b) mod b" using b by (rule js_rem_nonneg)
  then show ?thesis by simp
qed

lemma js_index_mod: "xs \<noteq> [] \<Longrightarrow> js_index xs (k mod int (length xs)) = Some (xs ! nat (k mod int (length xs)))"
  by (simp add: js_index_def)

section \<open>What each operation leaves alone\<close>

lemma update_frame [simp]:
  "images (update e s) = images s" "current (update e s) = current s"
  "isOpen (update e s) = isOpen s" "figures (update e s) = figures s"
  "bound (update e s) = bound s" "listeners (update e s) = listeners s"
  "fetched (update e s) = fetched s"
  by (simp_all add: update_def)

lemma scan_nodes_frame [simp]:
  "current (scan_nodes i nodes s) = current s" "isOpen (scan_nodes i nodes s) = isOpen s"
  "bound (scan_nodes i nodes s) = bound s" "listeners (scan_nodes i nodes s) = listeners s"
  by (induction i nodes s rule: scan_nodes.induct; simp split: option.splits)+

lemma bind_one_frame [simp]:
  "current (bind_one i f s) = current s" "isOpen (bind_one i f s) = isOpen s"
  "images (bind_one i f s) = images s" "figures (bind_one i f s) = figures s"
  by (simp_all add: bind_one_def)

lemma bind_figures_frame [simp]:
  "current (bind_figures i fs s) = current s" "isOpen (bind_figures i fs s) = isOpen s"
  "images (bind_figures i fs s) = images s" "figures (bind_figures i fs s) = figures s"
  by (induction i fs s rule: bind_figures.induct; simp)+

lemma fold_clear_bound_frame [simp]:
  "current (fold clear_bound fs s) = current s" "isOpen (fold clear_bound fs s) = isOpen s"
  "images (fold clear_bound fs s) = images s" "figures (fold clear_bound fs s) = figures s"
  "listeners (fold clear_bound fs s) = listeners s"
  by (induction fs arbitrary: s; simp add: clear_bound_def)+

lemma scanGallery_current [simp]:
  "current (scanGallery e nodes s) = current s" "isOpen (scanGallery e nodes s) = isOpen s"
  by (simp_all add: scanGallery_def Let_def)

lemma refreshGallery_current [simp]:
  "current (refreshGallery e nodes s) = current s" "isOpen (refreshGallery e nodes s) = isOpen s"
  by (simp_all add: refreshGallery_def)

lemma preload_one_frame:
  "current (state_of (preload_one idx off s)) = current s"
  "images (state_of (preload_one idx off s)) = images s"
  "isOpen (state_of (preload_one idx off s)) = isOpen s"
  by (simp_all add: preload_one_def Let_def split: option.splits)

lemma preloadNeighbors_frame [simp]:
  "current (state_of (preloadNeighbors idx s)) = current s"
  "images (state_of (preloadNeighbors idx s)) = images s"
  "isOpen (state_of (preloadNeighbors idx s)) = isOpen s"
  unfolding preloadNeighbors_def
  by (cases "preload_one idx (- 1) s"; use preload_one_frame [of idx "- 1" s] preload_one_frame in simp)+

lemma fade_frame [simp]:
  "current (state_of (fade e it s)) = current s"
  "images (state_of (fade e it s)) = images s"
  "isOpen (state_of (fade e it s)) = isOpen s"
  by (simp_all add: fade_def split: option.splits)

lemma openAt_images [simp]: "images (openAt e i s) = images s"
  by (simp add: openAt_def Let_def)

lemma nextLB_images [simp]: "images (nextLB e s) = images s"
  by (simp add: nextLB_def)

lemma prev_images [simp]: "images (prev e s) = images s"
  by (simp add: prev_def)

lemma closeLB_frame [simp]: "images (closeLB e s) = images s" "current (closeLB e s) = current s"
  by (simp_all add: closeLB_def)

lemma scan_nodes_display [simp]:
  "timers (scan_nodes i nodes s) = timers s" "fetched (scan_nodes i nodes s) = fetched s"
  by (induction i nodes s rule: scan_nodes.induct; simp split: option.splits)+

lemma bind_one_display [simp]:
  "timers (bind_one i f s) = timers s" "fetched (bind_one i f s) = fetched s"
  by (simp_all add: bind_one_def)

lemma bind_figures_display [simp]:
  "timers (bind_figures i fs s) = timers s" "fetched (bind_figures i fs s) = fetched s"
  by (induction i fs s rule: bind_figures.induct; simp)+

lemma scanGallery_display [simp]:
  "timers (scanGallery e nodes s) = timers s" "fetched (scanGallery e nodes s) = fetched s"
  by (simp_all add: scanGallery_def Let_def)

lemma fold_clear_bound_display [simp]:
  "timers (fold clear_bound fs s) = timers s" "fetched (fold clear_bound fs s) = fetched s"
  by (induction fs arbitrary: s; simp add: clear_bound_def)+

lemma refreshGallery_display [simp]:
  "timers (refreshGallery e nodes s) = timers s" "fetched (refreshGallery e nodes s) = fetched s"
  by (simp_all add: refreshGallery_def)

section \<open>The index after each operation\<close>

lemma openAt_current:
  "images s \<noteq> [] \<Longrightarrow> hasLb e \<Longrightarrow> current (openAt e i s) = i mod int (length (images s))"
  by (simp add: openAt_def Let_def js_rem_wrap)

lemma openAt_current_nonneg: "0 \<le> current s \<Longrightarrow> 0 \<le> current (openAt e i s)"
  by (cases "images s = [] \<or> \<not> hasLb e") (auto simp add: openAt_def Let_def js_rem_wrap)

lemma nextLB_current:
  "images s \<noteq> [] \<Longrightarrow> 0 \<le> current s \<Longrightarrow>
   current (nextLB e s) = (current s + 1) mod int (length (images s))"
  by (simp add: nextLB_def js_rem_succ)

lemma prev_current:
  "images s \<noteq> [] \<Longrightarrow> 0 \<le> current s \<Longrightarrow>
   current (prev e s) = (current s - 1) mod int (length (images s))"
  by (simp add: prev_def js_rem_pred)

lemma nextLB_current_nonneg: "0 \<le> current s \<Longrightarrow> 0 \<le> current (nextLB e s)"
  by (cases "images s = []") (simp_all add: nextLB_current, simp add: nextLB_def)

lemma prev_current_nonneg: "0 \<le> current s \<Longrightarrow> 0 \<le> current (prev e s)"
  by (cases "images s = []") (simp_all add: prev_current, simp add: prev_def)

lemma fold_run_handler_nonneg:
  "0 \<le> current s \<Longrightarrow> 0 \<le> current (fold (run_handler e) hs s)"
proof (induction hs arbitrary: s)
  case Nil
  then show ?case by simp
next
  case (Cons h hs)
  have "0 \<le> current (run_handler e h s)"
    using Cons.prems by (cases h) (simp_all add: openAt_current_nonneg)
  then show ?case using Cons.IH by simp
qed

lemma exec_current_nonneg: "0 \<le> current s \<Longrightarrow> 0 \<le> current (state_of (exec e x s))"
  by (cases x)
    (simp_all add: openAt_current_nonneg nextLB_current_nonneg prev_current_nonneg
      fold_run_handler_nonneg split: list.splits)

lemma run_current_nonneg: "0 \<le> current s \<Longrightarrow> 0 \<le> current (run e ops s)"
  unfolding run_def
  by (induction ops arbitrary: s) (simp_all add: exec_current_nonneg)

lemma loaded_current [simp]: "current (loaded e nodes) = 0"
  by (simp add: loaded_def initial_def)

lemma reachable_current_nonneg: "0 \<le> current (run e ops (loaded e nodes))"
  by (rule run_current_nonneg) simp

section \<open>The example pages after loading\<close>

lemma loaded_empty_images: "images (loaded e []) = []"
  by (simp add: loaded_def scanGallery_def Let_def initial_def)

lemma scan_three_items:
  "hasGallery e \<Longrightarrow> images (scanGallery e three_items s) =
     [\<lparr>thumb = ''a.jpg'', large = ''A'', alt = ''first'', el = 1\<rparr>,
      \<lparr>thumb = ''b.jpg'', large = ''B'', alt = ''second'', el = 2\<rparr>,
      \<lparr>thumb = ''c.jpg'', large = ''C'', alt = ''third'', el = 3\<rparr>]"
  by (simp add: scanGallery_def Let_def three_items_def make_entry_def js_or_def img_alt_def)

lemma loaded_three_items:
  "images (loaded full_env three_items) =
     [\<lparr>thumb = ''a.jpg'', large = ''A'', alt = ''first'', el = 1\<rparr>,
      \<lparr>thumb = ''b.jpg'', large = ''B'', alt = ''second'', el = 2\<rparr>,
      \<lparr>thumb = ''c.jpg'', large = ''C'', alt = ''third'', el = 3\<rparr>]"
  by (simp add: loaded_def scan_three_items full_env_def)

lemma scan_one_item:
  "hasGallery e \<Longrightarrow> images (scanGallery e one_item s) =
     [\<lparr>thumb = ''thumb.jpg'', large = ''thumb.jpg'', alt = ''Image 1'', el = 1\<rparr>]"
  by (simp add: scanGallery_def Let_def one_item_def make_entry_def js_or_def img_alt_def
      string_of_nat.simps digit_char_def)

lemma loaded_one_item:
  "images (loaded full_env one_item) =
     [\<lparr>thumb = ''thumb.jpg'', large = ''thumb.jpg'', alt = ''Image 1'', el = 1\<rparr>]"
  by (simp add: loaded_def scanGallery_def Let_def initial_def one_item_def full_env_def
      make_entry_def js_or_def img_alt_def string_of_nat.simps digit_char_def)

lemma loaded_isOpen [simp]: "isOpen (loaded e nodes) = False"
  by (simp add: loaded_def initial_def)

lemma loaded_display [simp]: "timers (loaded e nodes) = []" "fetched (loaded e nodes) = []"
  by (simp_all add: loaded_def initial_def)

section \<open>Stepping and preloading\<close>

lemma update_timers:
  "images s \<noteq> [] \<Longrightarrow> hasLbImage e \<Longrightarrow> 0 \<le> current s \<Longrightarrow> current s < int (length (images s)) \<Longrightarrow>
   timers (update e s) = timers s @ [Some (images s ! nat (current s))]"
  by (simp add: update_def js_index_def)

lemma nextLB_iterate:
  assumes "images s \<noteq> []" "0 \<le> current s"
  shows "images ((nextLB e ^^ k) s) = images s \<and>
         0 \<le> current ((nextLB e ^^ k) s) \<and>
         current ((nextLB e ^^ k) s) mod int (length (images s))
           = (current s + int k) mod int (length (images s))"
proof (induction k)
  case 0
  show ?case using assms by simp
next
  case (Suc k)
  let ?t = "(nextLB e ^^ k) s"
  from Suc have im: "images ?t = images s" and nn: "0 \<le> current ?t"
    and eq: "current ?t mod int (length (images s)) = (current s + int k) mod int (length (images s))"
    by simp_all
  have "current (nextLB e ?t) = (current ?t + 1) mod int (length (images s))"
    using nextLB_current [of ?t e] im nn assms(1) by simp
  also have "\<dots> = (current ?t mod int (length (images s)) + 1) mod int (length (images s))"
    by (simp add: mod_add_left_eq)
  also have "\<dots> = ((current s + int k) mod int (length (images s)) + 1) mod int (length (images s))"
    by (simp only: eq)
  also have "\<dots> = (current s + int k + 1) mod int (length (images s))"
    by (simp add: mod_add_left_eq)
  also have "\<dots> = (current s + int (Suc k)) mod int (length (images s))"
    by (simp add: ac_simps)
  finally have "current (nextLB e ?t) = (current s + int (Suc k)) mod int (length (images s))" .
  moreover have "0 \<le> current (nextLB e ?t)" using nn by (rule nextLB_current_nonneg)
  moreover have "images (nextLB e ?t) = images s" using im by simp
  ultimately show ?case by simp
qed

lemma preload_one_offset:
  assumes "images s \<noteq> []" and "0 \<le> idx + off + int (length (images s))"
  shows "preload_one idx off s =
     Done (s\<lparr>fetched := fetched s @ [large (images s ! nat ((idx + off) mod int (length (images s))))]\<rparr>)"
proof -
  let ?n = "int (length (images s))"
  have pos: "0 < ?n" using assms(1) by simp
  have "js_rem (idx + off + ?n) ?n = (idx + off + ?n) mod ?n"
    using assms(2) pos by (rule js_rem_nonneg)
  also have "\<dots> = (idx + off) mod ?n" by simp
  finally have r: "js_rem (idx + off + ?n) ?n = (idx + off) mod ?n" .
  have "js_index (images s) ((idx + off) mod ?n) = Some (images s ! nat ((idx + off) mod ?n))"
    using assms(1) by (rule js_index_mod)
  then show ?thesis using assms(1) r by (simp add: preload_one_def Let_def)
qed

lemma preloadNeighbors_nonempty:
  assumes "images s \<noteq> []" and "0 \<le> idx"
  shows "preloadNeighbors idx s =
     Done (s\<lparr>fetched := fetched s @
        [large (images s ! nat ((idx - 1) mod int (length (images s)))),
         large (images s ! nat ((idx + 1) mod int (length (images s))))]\<rparr>)"
proof -
  let ?n = "int (length (images s))"
  let ?s1 = "s\<lparr>fetched := fetched s @ [large (images s ! nat ((idx - 1) mod ?n))]\<rparr>"
  have pos: "0 < ?n" using assms(1) by simp
  have "0 \<le> idx + (- 1) + ?n" using assms(2) pos by linarith
  with assms(1) have "preload_one idx (- 1) s =
      Done (s\<lparr>fetched := fetched s @ [large (images s ! nat ((idx + (- 1)) mod ?n))]\<rparr>)"
    by (rule preload_one_offset)
  then have one: "preload_one idx (- 1) s = Done ?s1" by simp
  have ne1: "images ?s1 \<noteq> []" using assms(1) by simp
  have "0 \<le> idx + 1 + int (length (images ?s1))" using assms(2) by simp
  with ne1 have "preload_one idx 1 ?s1 =
      Done (?s1\<lparr>fetched := fetched ?s1 @ [large (images ?s1 ! nat ((idx + 1) mod int (length (images ?s1))))]\<rparr>)"
    by (rule preload_one_offset)
  then have two: "preload_one idx 1 ?s1 =
      Done (s\<lparr>fetched := fetched s @
        [large (images s ! nat ((idx - 1) mod ?n)), large (images s ! nat ((idx + 1) mod ?n))]\<rparr>)"
    by simp
  show ?thesis unfolding preloadNeighbors_def by (simp add: one two)
qed

lemma openAt_unfold:
  assumes "images s \<noteq> []" and "hasLb e" and "hasLbImage e"
  shows "openAt e i s =
     s\<lparr>current := i mod int (length (images s)), lbOpacity := ''0'',
       timers := timers s @ [Some (images s ! nat (i mod int (length (images s))))],
       bodyOverflow := ''hidden'', ariaHidden := ''false'', isOpen := True\<rparr>"
  using assms by (simp add: openAt_def Let_def js_rem_wrap update_def js_index_mod)

lemma openAt_isOpen: "images s \<noteq> [] \<Longrightarrow> hasLb e \<Longrightarrow> isOpen (openAt e i s)"
  by (simp add: openAt_def Let_def)

lemma openAt_js_formula:
  "images s \<noteq> [] \<Longrightarrow> hasLb e \<Longrightarrow>
   current (openAt e i s) =
     js_rem (js_rem i (int (length (images s))) + int (length (images s))) (int (length (images s)))"
  by (simp add: openAt_def Let_def)

lemma nextLB_unfold:
  assumes "images s \<noteq> []" and "0 \<le> current s" and "hasLbImage e"
  shows "nextLB e s =
     s\<lparr>current := (current s + 1) mod int (length (images s)), lbOpacity := ''0'',
       timers := timers s @ [Some (images s ! nat ((current s + 1) mod int (length (images s))))]\<rparr>"
  using assms by (simp add: nextLB_def js_rem_succ update_def js_index_mod)

lemma prev_unfold:
  assumes "images s \<noteq> []" and "0 \<le> current s" and "hasLbImage e"
  shows "prev e s =
     s\<lparr>current := (current s - 1) mod int (length (images s)), lbOpacity := ''0'',
       timers := timers s @ [Some (images s ! nat ((current s - 1) mod int (length (images s))))]\<rparr>"
  using assms by (simp add: prev_def js_rem_pred update_def js_index_mod)

lemma nextLB_no_image:
  assumes "images s \<noteq> []" and "0 \<le> current s" and "\<not> hasLbImage e"
  shows "nextLB e s = s\<lparr>current := (current s + 1) mod int (length (images s))\<rparr>"
  using assms by (simp add: nextLB_def js_rem_succ update_def)

lemma prev_no_image:
  assumes "images s \<noteq> []" and "0 \<le> current s" and "\<not> hasLbImage e"
  shows "prev e s = s\<lparr>current := (current s - 1) mod int (length (images s))\<rparr>"
  using assms by (simp add: prev_def js_rem_pred update_def)

lemma nextLB_isOpen [simp]: "isOpen (nextLB e s) = isOpen s"
  by (simp add: nextLB_def)

lemma prev_isOpen [simp]: "isOpen (prev e s) = isOpen s"
  by (simp add: prev_def)

lemma tick_after_nextLB:
  assumes "images s \<noteq> []" and "0 \<le> current s" and "hasLbImage e" and "timers s = []"
  shows "\<not> has_thrown (exec e Tick (nextLB e s)) \<and>
         lbSrc (state_of (exec e Tick (nextLB e s)))
           = large (images s ! nat ((current s + 1) mod int (length (images s)))) \<and>
         lbOpacity (state_of (exec e Tick (nextLB e s))) = ''1''"
  using assms by (simp add: nextLB_unfold fade_def preloadNeighbors_nonempty)

lemma tick_after_prev:
  assumes "images s \<noteq> []" and "0 \<le> current s" and "hasLbImage e" and "timers s = []"
  shows "\<not> has_thrown (exec e Tick (prev e s)) \<and>
         lbSrc (state_of (exec e Tick (prev e s)))
           = large (images s ! nat ((current s - 1) mod int (length (images s)))) \<and>
         lbOpacity (state_of (exec e Tick (prev e s))) = ''1''"
  using assms by (simp add: prev_unfold fade_def preloadNeighbors_nonempty)

lemma nextLB_full_turn:
  assumes "images s \<noteq> []" and "0 \<le> current s"
  shows "current ((nextLB e ^^ length (images s)) s) = current s mod int (length (images s))"
proof -
  let ?n = "int (length (images s))"
  let ?t = "(nextLB e ^^ length (images s)) s"
  have pos: "0 < ?n" using assms(1) by simp
  from nextLB_iterate [where e = e and k = "length (images s)", OF assms]
  have tn: "0 \<le> current ?t" and eq: "current ?t mod ?n = (current s + ?n) mod ?n" by simp_all
  have "length (images s) = Suc (length (images s) - 1)" using assms(1) by simp
  then obtain k where k: "length (images s) = Suc k" ..
  let ?u = "(nextLB e ^^ k) s"
  from nextLB_iterate [where e = e and k = k, OF assms]
  have um: "images ?u = images s" and un: "0 \<le> current ?u" by simp_all
  have "?t = nextLB e ?u" using k by simp
  then have "current ?t = (current ?u + 1) mod ?n"
    using nextLB_current [of ?u e] um un assms(1) by simp
  then have "current ?t < ?n" using pos by simp
  then have "current ?t mod ?n = current ?t" using tn by simp
  then show ?thesis using eq by simp
qed

section \<open>Validity of the index\<close>

lemma in_range_openAt: "images s \<noteq> [] \<Longrightarrow> hasLb e \<Longrightarrow> in_range (openAt e i s)"
  by (simp add: in_range_def openAt_current)

lemma in_range_nextLB: "images s \<noteq> [] \<Longrightarrow> 0 \<le> current s \<Longrightarrow> in_range (nextLB e s)"
  by (simp add: in_range_def nextLB_current)

lemma in_range_prev: "images s \<noteq> [] \<Longrightarrow> 0 \<le> current s \<Longrightarrow> in_range (prev e s)"
  by (simp add: in_range_def prev_current)

lemma in_range_nonempty: "in_range s \<Longrightarrow> images s \<noteq> [] \<and> 0 \<le> current s"
  by (auto simp add: in_range_def)

lemma in_range_openAt_keeps: "in_range s \<Longrightarrow> in_range (openAt e i s)"
proof (cases "hasLb e")
  case True
  assume "in_range s"
  then have "images s \<noteq> []" by (simp add: in_range_nonempty)
  then show ?thesis using True by (rule in_range_openAt)
next
  case False
  assume "in_range s"
  then show ?thesis using False by (simp add: openAt_def)
qed

lemma in_range_fold_handlers: "in_range s \<Longrightarrow> in_range (fold (run_handler e) hs s)"
proof (induction hs arbitrary: s)
  case Nil
  then show ?case by simp
next
  case (Cons h hs)
  have "in_range (run_handler e h s)"
    using Cons.prems by (cases h) (simp_all add: in_range_openAt_keeps)
  then show ?case using Cons.IH by simp
qed

lemma in_range_frame:
  "current t = current s \<Longrightarrow> images t = images s \<Longrightarrow> in_range s \<Longrightarrow> in_range t"
  by (simp add: in_range_def)

lemma in_range_exec:
  assumes "in_range s" and "\<not> is_refresh x"
  shows "in_range (state_of (exec e x s))"
proof (cases x)
  case (OpenAt i)
  then show ?thesis using assms(1) by (simp add: in_range_openAt_keeps)
next
  case Next
  then show ?thesis using in_range_nonempty [OF assms(1)] by (simp add: in_range_nextLB)
next
  case Prev
  then show ?thesis using in_range_nonempty [OF assms(1)] by (simp add: in_range_prev)
next
  case Close
  then show ?thesis using assms(1) by (simp add: in_range_def)
next
  case (Refresh nodes)
  then show ?thesis using assms(2) by simp
next
  case Tick
  then show ?thesis using assms(1) by (simp add: in_range_def split: list.splits)
next
  case SrcChanged
  then show ?thesis using assms(1) by (simp add: in_range_def)
next
  case (Click fig)
  then show ?thesis using assms(1) by (simp add: in_range_fold_handlers)
qed

section \<open>Where the scan puts an entry\<close>

lemma scan_nodes_prefix: "\<exists>ys. images (scan_nodes i nodes s) = images s @ ys"
proof (induction i nodes s rule: scan_nodes.induct)
  case (1 i s)
  then show ?case by simp
next
  case (2 i fig rest s)
  show ?case
  proof (cases "img_child fig")
    case None
    then show ?thesis using "2.IH"(1) by simp
  next
    case (Some img)
    let ?s1 = "s\<lparr>figures := figures s @ [elem fig], images := images s @ [make_entry i fig img]\<rparr>"
    from "2.IH"(2) [OF Some] obtain ys where "images (scan_nodes (Suc i) rest ?s1) = images ?s1 @ ys"
      by blast
    then have "images (scan_nodes i (fig # rest) s) = images s @ (make_entry i fig img # ys)"
      using Some by simp
    then show ?thesis by blast
  qed
qed

lemma scan_nodes_entry:
  "k < length nodes \<Longrightarrow> img_child (nodes ! k) = Some im \<Longrightarrow>
   length (images s) + entry_position k nodes < length (images (scan_nodes i nodes s)) \<and>
   images (scan_nodes i nodes s) ! (length (images s) + entry_position k nodes)
     = make_entry (i + k) (nodes ! k) im"
proof (induction nodes arbitrary: i k s)
  case Nil
  then show ?case by simp
next
  case (Cons fig rest)
  show ?case
  proof (cases k)
    case 0
    with Cons.prems have ch: "img_child fig = Some im" by simp
    let ?s1 = "s\<lparr>figures := figures s @ [elem fig], images := images s @ [make_entry i fig im]\<rparr>"
    obtain ys where "images (scan_nodes (Suc i) rest ?s1) = images ?s1 @ ys"
      using scan_nodes_prefix by blast
    then have "images (scan_nodes i (fig # rest) s) = images s @ make_entry i fig im # ys"
      using ch by simp
    then show ?thesis using 0 by (simp add: entry_position_def)
  next
    case (Suc j)
    with Cons.prems have j: "j < length rest" and cj: "img_child (rest ! j) = Some im" by simp_all
    show ?thesis
    proof (cases "img_child fig")
      case None
      have "entry_position (Suc j) (fig # rest) = entry_position j rest"
        using None by (simp add: entry_position_def)
      then show ?thesis using Cons.IH [OF j cj, of s "Suc i"] None Suc by simp
    next
      case (Some img)
      let ?s1 = "s\<lparr>figures := figures s @ [elem fig], images := images s @ [make_entry i fig img]\<rparr>"
      have "entry_position (Suc j) (fig # rest) = Suc (entry_position j rest)"
        using Some by (simp add: entry_position_def)
      then show ?thesis using Cons.IH [OF j cj, of ?s1 "Suc i"] Some Suc by simp
    qed
  qed
qed

lemma scanGallery_entry:
  assumes "hasGallery e" and "k < length nodes" and "img_child (nodes ! k) = Some im"
  shows "entry_position k nodes < length (images (scanGallery e nodes s)) \<and>
         images (scanGallery e nodes s) ! entry_position k nodes = make_entry k (nodes ! k) im"
  using assms(1) scan_nodes_entry [OF assms(2,3), of "s\<lparr>figures := [], images := []\<rparr>" 0]
  by (simp add: scanGallery_def Let_def)

lemma entry_position_no_skip:
  "k \<le> length nodes \<Longrightarrow> \<forall>f \<in> set (take k nodes). img_child f \<noteq> None \<Longrightarrow> entry_position k nodes = k"
  by (simp add: entry_position_def)



section \<open>Properties of the viewer operations\<close>

text \<open>
  C2. With an empty entry list, \<^verbatim>\<open>openAt\<close>, \<^verbatim>\<open>next\<close> and \<^verbatim>\<open>prev\<close> return normally
  and leave the whole state as it was, in particular \<open>isOpen\<close> and \<open>current\<close>.
\<close>

theorem empty_gallery_is_noop:
  assumes "images s = []"
  shows "exec e (OpenAt i) s = Done s \<and> exec e Next s = Done s \<and> exec e Prev s = Done s"
  using assms by (simp add: openAt_def nextLB_def prev_def)

theorem empty_gallery_is_noop_witness:
  "images (loaded full_env []) = [] \<and>
   exec full_env (OpenAt 4) (loaded full_env []) = Done (loaded full_env []) \<and>
   exec full_env Next (loaded full_env []) = Done (loaded full_env []) \<and>
   exec full_env Prev (loaded full_env []) = Done (loaded full_env [])"
  using empty_gallery_is_noop [of "loaded full_env []" full_env 4]
  by (simp add: loaded_empty_images)

text \<open>
  C10. \<^verbatim>\<open>close\<close> leaves the current index and the entry list unchanged in every state, so
  the entry the index refers to is the same before and after; the only fields it writes
  are the lightbox's \<^verbatim>\<open>aria-hidden\<close>, the body's overflow style and \<open>isOpen\<close>. When the
  lightbox element exists it clears \<open>isOpen\<close>, hides the lightbox (\<^verbatim>\<open>aria-hidden\<close> is
  \<^verbatim>\<open>true\<close>) and restores the body's overflow style to the empty string; without the
  element it changes nothing.
\<close>

theorem close_keeps_index_and_entries:
  "current (closeLB e s) = current s \<and> images (closeLB e s) = images s \<and>
   js_index (images (closeLB e s)) (current (closeLB e s)) = js_index (images s) (current s) \<and>
   isOpen (closeLB e s) = (isOpen s \<and> \<not> hasLb e) \<and>
   closeLB e s = s\<lparr>ariaHidden := ariaHidden (closeLB e s),
                    bodyOverflow := bodyOverflow (closeLB e s),
                    isOpen := isOpen (closeLB e s)\<rparr> \<and>
   (hasLb e \<longrightarrow>
      \<not> isOpen (closeLB e s) \<and> ariaHidden (closeLB e s) = ''true'' \<and>
      bodyOverflow (closeLB e s) = []) \<and>
   (\<not> hasLb e \<longrightarrow> closeLB e s = s)"
  by (simp add: closeLB_def)

theorem close_keeps_index_and_entries_witness:
  "hasLb full_env \<and>
   isOpen (openAt full_env 1 (loaded full_env three_items)) \<and>
   bodyOverflow (openAt full_env 1 (loaded full_env three_items)) = ''hidden'' \<and>
   ariaHidden (openAt full_env 1 (loaded full_env three_items)) = ''false'' \<and>
   current (openAt full_env 1 (loaded full_env three_items)) = 1 \<and>
   \<not> isOpen (closeLB full_env (openAt full_env 1 (loaded full_env three_items))) \<and>
   bodyOverflow (closeLB full_env (openAt full_env 1 (loaded full_env three_items))) = [] \<and>
   ariaHidden (closeLB full_env (openAt full_env 1 (loaded full_env three_items))) = ''true'' \<and>
   current (closeLB full_env (openAt full_env 1 (loaded full_env three_items))) = 1 \<and>
   images (closeLB full_env (openAt full_env 1 (loaded full_env three_items)))
     = images (loaded full_env three_items)"
proof -
  let ?s = "openAt full_env 1 (loaded full_env three_items)"
  have lb: "hasLb full_env" and li: "hasLbImage full_env" by (simp_all add: full_env_def)
  have ne: "images (loaded full_env three_items) \<noteq> []" by (simp add: loaded_three_items)
  have o: "isOpen ?s \<and> bodyOverflow ?s = ''hidden'' \<and> ariaHidden ?s = ''false'' \<and> current ?s = 1"
    using ne lb li by (simp add: openAt_unfold loaded_three_items)
  from close_keeps_index_and_entries [of full_env ?s]
  show ?thesis using lb o by simp
qed

text \<open>
  C9, as the code has it. \<^verbatim>\<open>next\<close> and \<^verbatim>\<open>prev\<close> never change \<open>isOpen\<close>, in any state.
  Called in a state \<open>t\<close> the page can reach, with entries and the viewer closed, they
  still move the index by one modulo the list length and the viewer stays closed. If the
  lightbox image exists they start the display update: the image is hidden (opacity 0)
  and the swap to the new entry is scheduled, and when that callback runs next it shows
  the entry's full URL and reveals the image. Without the lightbox image only the index
  changes.
\<close>

theorem next_prev_keep_isOpen:
  "isOpen (nextLB e s) = isOpen s \<and> isOpen (prev e s) = isOpen s \<and>
   (t = run e ops (loaded e nodes) \<and> images t \<noteq> [] \<and> \<not> isOpen t \<longrightarrow>
      current (nextLB e t) = (current t + 1) mod int (length (images t)) \<and>
      current (prev e t) = (current t - 1) mod int (length (images t)) \<and>
      \<not> isOpen (nextLB e t) \<and> \<not> isOpen (prev e t) \<and>
      (hasLbImage e \<longrightarrow>
         lbOpacity (nextLB e t) = ''0'' \<and>
         timers (nextLB e t) =
           timers t @ [Some (images t ! nat ((current t + 1) mod int (length (images t))))] \<and>
         lbOpacity (prev e t) = ''0'' \<and>
         timers (prev e t) =
           timers t @ [Some (images t ! nat ((current t - 1) mod int (length (images t))))] \<and>
         (timers t = [] \<longrightarrow>
            \<not> has_thrown (exec e Tick (nextLB e t)) \<and>
            lbSrc (state_of (exec e Tick (nextLB e t)))
              = large (images t ! nat ((current t + 1) mod int (length (images t)))) \<and>
            lbOpacity (state_of (exec e Tick (nextLB e t))) = ''1'' \<and>
            \<not> has_thrown (exec e Tick (prev e t)) \<and>
            lbSrc (state_of (exec e Tick (prev e t)))
              = large (images t ! nat ((current t - 1) mod int (length (images t)))) \<and>
            lbOpacity (state_of (exec e Tick (prev e t))) = ''1'')) \<and>
      (\<not> hasLbImage e \<longrightarrow>
         nextLB e t = t\<lparr>current := (current t + 1) mod int (length (images t))\<rparr> \<and>
         prev e t = t\<lparr>current := (current t - 1) mod int (length (images t))\<rparr>))"
proof -
  have frame: "isOpen (nextLB e s) = isOpen s \<and> isOpen (prev e s) = isOpen s" by simp
  have main: "current (nextLB e t) = (current t + 1) mod int (length (images t)) \<and>
      current (prev e t) = (current t - 1) mod int (length (images t)) \<and>
      \<not> isOpen (nextLB e t) \<and> \<not> isOpen (prev e t) \<and>
      (hasLbImage e \<longrightarrow>
         lbOpacity (nextLB e t) = ''0'' \<and>
         timers (nextLB e t) =
           timers t @ [Some (images t ! nat ((current t + 1) mod int (length (images t))))] \<and>
         lbOpacity (prev e t) = ''0'' \<and>
         timers (prev e t) =
           timers t @ [Some (images t ! nat ((current t - 1) mod int (length (images t))))] \<and>
         (timers t = [] \<longrightarrow>
            \<not> has_thrown (exec e Tick (nextLB e t)) \<and>
            lbSrc (state_of (exec e Tick (nextLB e t)))
              = large (images t ! nat ((current t + 1) mod int (length (images t)))) \<and>
            lbOpacity (state_of (exec e Tick (nextLB e t))) = ''1'' \<and>
            \<not> has_thrown (exec e Tick (prev e t)) \<and>
            lbSrc (state_of (exec e Tick (prev e t)))
              = large (images t ! nat ((current t - 1) mod int (length (images t)))) \<and>
            lbOpacity (state_of (exec e Tick (prev e t))) = ''1'')) \<and>
      (\<not> hasLbImage e \<longrightarrow>
         nextLB e t = t\<lparr>current := (current t + 1) mod int (length (images t))\<rparr> \<and>
         prev e t = t\<lparr>current := (current t - 1) mod int (length (images t))\<rparr>)"
    if r: "t = run e ops (loaded e nodes)" and ne: "images t \<noteq> []" and cl: "\<not> isOpen t"
  proof -
    have nn: "0 \<le> current t" using r by (simp add: reachable_current_nonneg)
    have a: "current (nextLB e t) = (current t + 1) mod int (length (images t))"
      using ne nn by (rule nextLB_current)
    have b: "current (prev e t) = (current t - 1) mod int (length (images t))"
      using ne nn by (rule prev_current)
    have c: "\<not> isOpen (nextLB e t) \<and> \<not> isOpen (prev e t)" using cl by simp
    have d: "lbOpacity (nextLB e t) = ''0'' \<and>
         timers (nextLB e t) =
           timers t @ [Some (images t ! nat ((current t + 1) mod int (length (images t))))]"
      if "hasLbImage e" using ne nn that by (simp add: nextLB_unfold)
    have d': "lbOpacity (prev e t) = ''0'' \<and>
         timers (prev e t) =
           timers t @ [Some (images t ! nat ((current t - 1) mod int (length (images t))))]"
      if "hasLbImage e" using ne nn that by (simp add: prev_unfold)
    have f: "\<not> has_thrown (exec e Tick (nextLB e t)) \<and>
            lbSrc (state_of (exec e Tick (nextLB e t)))
              = large (images t ! nat ((current t + 1) mod int (length (images t)))) \<and>
            lbOpacity (state_of (exec e Tick (nextLB e t))) = ''1''"
      if "hasLbImage e" "timers t = []" using ne nn that by (rule tick_after_nextLB)
    have f': "\<not> has_thrown (exec e Tick (prev e t)) \<and>
            lbSrc (state_of (exec e Tick (prev e t)))
              = large (images t ! nat ((current t - 1) mod int (length (images t)))) \<and>
            lbOpacity (state_of (exec e Tick (prev e t))) = ''1''"
      if "hasLbImage e" "timers t = []" using ne nn that by (rule tick_after_prev)
    have g: "nextLB e t = t\<lparr>current := (current t + 1) mod int (length (images t))\<rparr>"
      if "\<not> hasLbImage e" using ne nn that by (rule nextLB_no_image)
    have g': "prev e t = t\<lparr>current := (current t - 1) mod int (length (images t))\<rparr>"
      if "\<not> hasLbImage e" using ne nn that by (rule prev_no_image)
    show ?thesis using a b c d d' f f' g g' by blast
  qed
  show ?thesis using frame main by blast
qed


theorem next_prev_keep_isOpen_witness:
  "images (loaded full_env three_items) \<noteq> [] \<and> \<not> isOpen (loaded full_env three_items) \<and>
   hasLbImage full_env \<and> timers (loaded full_env three_items) = [] \<and>
   current (nextLB full_env (loaded full_env three_items)) = 1 \<and>
   \<not> isOpen (nextLB full_env (loaded full_env three_items)) \<and>
   lbOpacity (nextLB full_env (loaded full_env three_items)) = ''0'' \<and>
   timers (nextLB full_env (loaded full_env three_items)) =
     [Some \<lparr>thumb = ''b.jpg'', large = ''B'', alt = ''second'', el = 2\<rparr>] \<and>
   lbSrc (state_of (exec full_env Tick (nextLB full_env (loaded full_env three_items)))) = ''B'' \<and>
   current (prev full_env (loaded full_env three_items)) = 2 \<and>
   \<not> isOpen (prev full_env (loaded full_env three_items)) \<and>
   lbSrc (state_of (exec full_env Tick (prev full_env (loaded full_env three_items)))) = ''C''"
proof -
  let ?t = "loaded full_env three_items"
  have r: "?t = run full_env [] (loaded full_env three_items)" by (simp add: run_def)
  have ne: "images ?t \<noteq> []" by (simp add: loaded_three_items)
  have n: "int (length (images ?t)) = 3" by (simp add: loaded_three_items)
  have li: "hasLbImage full_env" by (simp add: full_env_def)
  from next_prev_keep_isOpen [of full_env ?t ?t "[]" three_items] r ne li
  show ?thesis by (simp add: n loaded_three_items del: exec.simps)
qed

text \<open>
  On a page with three entries, a lightbox and no lightbox image, \<^verbatim>\<open>next\<close> from the
  closed viewer moves the index to 1 and nothing else: no callback is pending and the
  next timer event finds nothing to run.
\<close>

theorem next_without_lightbox_image:
  "images (loaded no_image_env three_items) \<noteq> [] \<and>
   \<not> isOpen (loaded no_image_env three_items) \<and>
   nextLB no_image_env (loaded no_image_env three_items)
     = (loaded no_image_env three_items)\<lparr>current := 1\<rparr> \<and>
   timers (nextLB no_image_env (loaded no_image_env three_items)) = [] \<and>
   exec no_image_env Tick (nextLB no_image_env (loaded no_image_env three_items))
     = Done (nextLB no_image_env (loaded no_image_env three_items))"
proof -
  let ?t = "loaded no_image_env three_items"
  have g: "hasGallery no_image_env" and li: "\<not> hasLbImage no_image_env"
    by (simp_all add: no_image_env_def)
  have im: "images ?t \<noteq> []" and n: "int (length (images ?t)) = 3"
    using g by (simp_all add: loaded_def scan_three_items)
  have "nextLB no_image_env ?t = ?t\<lparr>current := (current ?t + 1) mod int (length (images ?t))\<rparr>"
    using im li by (simp add: nextLB_no_image)
  then have a: "nextLB no_image_env ?t = ?t\<lparr>current := 1\<rparr>" by (simp add: n)
  show ?thesis using im by (simp add: a)
qed

text \<open>
  C6, as the code has it. In every state the page can reach with a non-empty entry list
  of length \<open>N\<close>, \<^verbatim>\<open>next\<close> moves the index to \<open>(current + 1) mod N\<close> and \<^verbatim>\<open>prev\<close> to
  \<open>(current - 1) mod N\<close>; \<open>N\<close> calls of \<^verbatim>\<open>next\<close> lead to \<open>current mod N\<close>, which is the
  original index whenever that index is inside the list; and \<^verbatim>\<open>prev\<close> from index 0
  gives \<open>N - 1\<close>.
\<close>

theorem next_prev_wrap_around:
  assumes "s = run e ops (loaded e nodes)" and "images s \<noteq> []"
  shows "current (nextLB e s) = (current s + 1) mod int (length (images s)) \<and>
         current (prev e s) = (current s - 1) mod int (length (images s)) \<and>
         current ((nextLB e ^^ length (images s)) s) = current s mod int (length (images s)) \<and>
         (current s < int (length (images s)) \<longrightarrow>
            current ((nextLB e ^^ length (images s)) s) = current s) \<and>
         (current s = 0 \<longrightarrow> current (prev e s) = int (length (images s)) - 1)"
proof -
  let ?n = "int (length (images s))"
  have nn: "0 \<le> current s" using assms(1) by (simp add: reachable_current_nonneg)
  have pos: "0 < ?n" using assms(2) by simp
  have a: "current (nextLB e s) = (current s + 1) mod ?n"
    using assms(2) nn by (rule nextLB_current)
  have b: "current (prev e s) = (current s - 1) mod ?n"
    using assms(2) nn by (rule prev_current)
  have t: "current ((nextLB e ^^ length (images s)) s) = current s mod ?n"
    using assms(2) nn by (rule nextLB_full_turn)
  have c: "current ((nextLB e ^^ length (images s)) s) = current s" if "current s < ?n"
    using t nn that by simp
  have d: "current (prev e s) = ?n - 1" if "current s = 0"
  proof -
    have "(- 1) mod ?n = ?n - 1" using pos by (rule zmod_minus1)
    then show ?thesis using b that by simp
  qed
  show ?thesis using a b t c d by blast
qed

theorem next_prev_wrap_around_witness:
  "images (run full_env [OpenAt 0] (loaded full_env three_items)) \<noteq> [] \<and>
   current (prev full_env (run full_env [OpenAt 0] (loaded full_env three_items))) = 2 \<and>
   current ((nextLB full_env ^^ 3) (run full_env [OpenAt 0] (loaded full_env three_items))) = 0"
proof -
  let ?s = "run full_env [OpenAt 0] (loaded full_env three_items)"
  have im: "length (images ?s) = 3" by (simp add: run_def loaded_three_items)
  then have ne: "images ?s \<noteq> []" by auto
  have "hasLb full_env" by (simp add: full_env_def)
  then have c0: "current ?s = 0"
    by (simp add: run_def openAt_current loaded_three_items)
  from next_prev_wrap_around [where e = full_env and ops = "[OpenAt 0]" and nodes = three_items, OF refl ne]
  show ?thesis using ne by (simp add: im c0)
qed

text \<open>
  After \<^verbatim>\<open>openAt(2)\<close> on three entries and a re-scan that finds one entry, the index is
  2 and \<open>N = 1\<close>: one call of \<^verbatim>\<open>next\<close> gives 0, not 2.
\<close>

theorem next_cycle_from_stale_index:
  "images (run full_env [OpenAt 2, Refresh one_item] (loaded full_env three_items)) \<noteq> [] \<and>
   length (images (run full_env [OpenAt 2, Refresh one_item] (loaded full_env three_items))) = 1 \<and>
   current (run full_env [OpenAt 2, Refresh one_item] (loaded full_env three_items)) = 2 \<and>
   current ((nextLB full_env ^^ 1)
      (run full_env [OpenAt 2, Refresh one_item] (loaded full_env three_items))) = 0"
proof -
  let ?s = "run full_env [OpenAt 2, Refresh one_item] (loaded full_env three_items)"
  have g: "hasGallery full_env" and lb: "hasLb full_env" by (simp_all add: full_env_def)
  have im: "images ?s = [\<lparr>thumb = ''thumb.jpg'', large = ''thumb.jpg'', alt = ''Image 1'', el = 1\<rparr>]"
    using g by (simp add: run_def refreshGallery_def scan_one_item)
  have c: "current ?s = 2" using lb by (simp add: run_def openAt_current loaded_three_items)
  have ne: "images ?s \<noteq> []" by (simp add: im)
  have nn: "0 \<le> current ?s" by (simp add: c)
  have "current (nextLB full_env ?s) = (current ?s + 1) mod int (length (images ?s))"
    using ne nn by (rule nextLB_current)
  then have "current (nextLB full_env ?s) = 0" by (simp add: im)
  then show ?thesis using c by (simp add: im)
qed

text \<open>
  C1, as the code has it. For a non-empty entry list of length \<open>N\<close> and every integer
  \<open>i\<close>, provided the lightbox element exists, \<^verbatim>\<open>openAt(i)\<close> sets the current index to
  \<open>((i % N) + N) % N\<close>, which is \<open>i mod N\<close>, and marks the viewer open. If the lightbox
  image exists too, it schedules the display update for that entry; when that callback
  is the next to run, it shows the entry and requests the full-size images of the
  entries at offsets \<open>-1\<close> and \<open>+1\<close> from that index modulo \<open>N\<close>. Without the lightbox
  element \<^verbatim>\<open>openAt\<close> changes nothing.
\<close>

theorem openAt_wraps_and_opens:
  assumes "images s \<noteq> []"
  shows "(hasLb e \<longrightarrow>
         current (openAt e i s) =
           js_rem (js_rem i (int (length (images s))) + int (length (images s))) (int (length (images s))) \<and>
         current (openAt e i s) = i mod int (length (images s)) \<and>
         isOpen (openAt e i s) \<and>
         (hasLbImage e \<longrightarrow>
            timers (openAt e i s) = timers s @ [Some (images s ! nat (i mod int (length (images s))))] \<and>
            (timers s = [] \<longrightarrow>
               \<not> has_thrown (exec e Tick (openAt e i s)) \<and>
               lbSrc (state_of (exec e Tick (openAt e i s))) =
                 large (images s ! nat (i mod int (length (images s)))) \<and>
               fetched (state_of (exec e Tick (openAt e i s))) = fetched s @
                 [large (images s ! nat ((i mod int (length (images s)) - 1) mod int (length (images s)))),
                  large (images s ! nat ((i mod int (length (images s)) + 1) mod int (length (images s))))]))) \<and>
         (\<not> hasLb e \<longrightarrow> openAt e i s = s)"
proof -
  have a: "current (openAt e i s) =
      js_rem (js_rem i (int (length (images s))) + int (length (images s))) (int (length (images s)))"
    if "hasLb e" using assms that by (rule openAt_js_formula)
  have b: "current (openAt e i s) = i mod int (length (images s))"
    if "hasLb e" using assms that by (rule openAt_current)
  have c: "isOpen (openAt e i s)" if "hasLb e" using assms that by (rule openAt_isOpen)
  have d: "timers (openAt e i s) = timers s @ [Some (images s ! nat (i mod int (length (images s))))]"
    if "hasLb e" "hasLbImage e"
    using assms that by (simp add: openAt_unfold)
  have f: "\<not> has_thrown (exec e Tick (openAt e i s)) \<and>
       lbSrc (state_of (exec e Tick (openAt e i s))) =
         large (images s ! nat (i mod int (length (images s)))) \<and>
       fetched (state_of (exec e Tick (openAt e i s))) = fetched s @
         [large (images s ! nat ((i mod int (length (images s)) - 1) mod int (length (images s)))),
          large (images s ! nat ((i mod int (length (images s)) + 1) mod int (length (images s))))]"
    if "hasLb e" "hasLbImage e" "timers s = []"
    using assms that by (simp add: openAt_unfold fade_def preloadNeighbors_nonempty)
  have g: "openAt e i s = s" if "\<not> hasLb e" using that by (simp add: openAt_def)
  show ?thesis using a b c d f g by blast
qed

theorem openAt_wraps_and_opens_witness:
  "images (loaded full_env three_items) \<noteq> [] \<and> hasLb full_env \<and> hasLbImage full_env \<and>
   timers (loaded full_env three_items) = [] \<and>
   current (openAt full_env (- 1) (loaded full_env three_items)) = 2 \<and>
   current (openAt full_env 7 (loaded full_env three_items)) = 1 \<and>
   isOpen (openAt full_env (- 1) (loaded full_env three_items)) \<and>
   fetched (state_of (exec full_env Tick (openAt full_env (- 1) (loaded full_env three_items)))) =
     fetched (loaded full_env three_items) @ [''B'', ''A'']"
proof -
  let ?s = "loaded full_env three_items"
  have ne: "images ?s \<noteq> []" by (simp add: loaded_three_items)
  have lb: "hasLb full_env" and li: "hasLbImage full_env" by (simp_all add: full_env_def)
  have n: "int (length (images ?s)) = 3" by (simp add: loaded_three_items)
  from openAt_wraps_and_opens [OF ne, of full_env "- 1"] openAt_wraps_and_opens [OF ne, of full_env 7]
  show ?thesis using ne lb li by (simp add: n loaded_three_items del: exec.simps)
qed

text \<open>
  Without the lightbox element \<^verbatim>\<open>openAt\<close> returns at its guard: on a page with three
  entries and no lightbox, \<^verbatim>\<open>openAt(1)\<close> leaves the index at 0 and the viewer closed.
\<close>
theorem openAt_without_lightbox:
  "images (loaded no_lb_env three_items) \<noteq> [] \<and>
   current (openAt no_lb_env 1 (loaded no_lb_env three_items)) = 0 \<and>
   \<not> isOpen (openAt no_lb_env 1 (loaded no_lb_env three_items))"
  by (simp add: openAt_def loaded_def scan_three_items no_lb_env_def initial_def)

text \<open>
  For a non-empty entry list of length \<open>N\<close> and every index \<open>idx \<ge> 0\<close>,
  \<^verbatim>\<open>preloadNeighbors(idx)\<close> returns normally after exactly two requests, for the entries
  at \<open>(idx - 1) mod N\<close> and \<open>(idx + 1) mod N\<close>, in that order; for \<open>N = 1\<close> both are the
  one entry.
\<close>

theorem preloadNeighbors_two_fetches:
  assumes "images s \<noteq> []" and "0 \<le> idx"
  shows "preloadNeighbors idx s =
     Done (s\<lparr>fetched := fetched s @
        [large (images s ! nat ((idx - 1) mod int (length (images s)))),
         large (images s ! nat ((idx + 1) mod int (length (images s))))]\<rparr>)"
  using assms by (rule preloadNeighbors_nonempty)

theorem preloadNeighbors_two_fetches_witness:
  "images (loaded full_env one_item) \<noteq> [] \<and> (0::int) \<le> 0 \<and>
   fetched (loaded full_env one_item) = [] \<and>
   fetched (state_of (preloadNeighbors 0 (loaded full_env one_item))) = [''thumb.jpg'', ''thumb.jpg''] \<and>
   \<not> has_thrown (preloadNeighbors 0 (loaded full_env one_item))"
proof -
  have ne: "images (loaded full_env one_item) \<noteq> []" by (simp add: loaded_one_item)
  from preloadNeighbors_two_fetches [OF ne, of 0]
  show ?thesis using ne by (simp add: loaded_one_item)
qed

text \<open>
  C5 asks for exactly two requests at every list length. \<^verbatim>\<open>preloadNeighbors\<close> is the
  one function that does not test for an empty list: with no entries the remainder by
  the list length is \<^verbatim>\<open>NaN\<close>, the first round throws and no request is made. The page
  reaches this through the observer of the lightbox image's \<^verbatim>\<open>src\<close> on an empty
  gallery, and through a display update scheduled by \<^verbatim>\<open>openAt\<close> that runs after a
  re-scan has emptied the list.
\<close>

theorem preloadNeighbors_empty_throws:
  "images (loaded full_env []) = [] \<and>
   preloadNeighbors 0 (loaded full_env []) = Raised TypeError (loaded full_env []) \<and>
   fetched (state_of (preloadNeighbors 0 (loaded full_env []))) = [] \<and>
   exec full_env SrcChanged (loaded full_env []) = Raised TypeError (loaded full_env []) \<and>
   has_thrown (exec full_env Tick (run full_env [OpenAt 0, Refresh []] (loaded full_env one_item))) \<and>
   fetched (state_of (exec full_env Tick
      (run full_env [OpenAt 0, Refresh []] (loaded full_env one_item)))) = []"
proof -
  have e: "hasGallery full_env" "hasLb full_env" "hasLbImage full_env" "hasMutationObserver full_env"
    by (simp_all add: full_env_def)
  have a: "preloadNeighbors 0 (loaded full_env []) = Raised TypeError (loaded full_env [])"
    by (simp add: preloadNeighbors_def preload_one_def loaded_empty_images)
  have b: "exec full_env SrcChanged (loaded full_env []) = Raised TypeError (loaded full_env [])"
    using e a by simp
  let ?s = "run full_env [OpenAt 0, Refresh []] (loaded full_env one_item)"
  have ne: "images (loaded full_env one_item) \<noteq> []" by (simp add: loaded_one_item)
  have im: "images ?s = []"
    by (simp add: run_def refreshGallery_def scanGallery_def Let_def)
  have tm: "timers ?s = [Some \<lparr>thumb = ''thumb.jpg'', large = ''thumb.jpg'', alt = ''Image 1'', el = 1\<rparr>]"
    using ne e by (simp add: run_def openAt_unfold loaded_one_item)
  have f: "fetched ?s = []"
    using ne e by (simp add: run_def openAt_unfold)
  have c: "has_thrown (exec full_env Tick ?s) \<and> fetched (state_of (exec full_env Tick ?s)) = []"
    by (simp add: tm fade_def preloadNeighbors_def preload_one_def im f)
  show ?thesis using a b c by (simp add: loaded_empty_images)
qed

text \<open>
  C3, as the code has it. In every state \<open>s\<close> the page can reach, the current index is
  not negative; after \<^verbatim>\<open>next\<close> and \<^verbatim>\<open>prev\<close> on a non-empty list, and after \<^verbatim>\<open>openAt\<close>
  when the lightbox element exists, it is an index of the entry list; every event other
  than a re-scan keeps it one, and it is one after loading. \<^verbatim>\<open>close\<close> and the
  re-scan leave the index as it is: the re-scan replaces the list without adjusting it.
\<close>
theorem current_valid_until_rescan:
  assumes "s = run e ops (loaded e nodes)"
  shows "0 \<le> current s \<and>
         (images s \<noteq> [] \<longrightarrow>
            in_range (nextLB e s) \<and> in_range (prev e s) \<and> (hasLb e \<longrightarrow> in_range (openAt e i s))) \<and>
         (in_range s \<and> \<not> is_refresh x \<longrightarrow> in_range (state_of (exec e x s))) \<and>
         (images (loaded e nodes) \<noteq> [] \<longrightarrow> in_range (loaded e nodes)) \<and>
         current (refreshGallery e nodes' s) = current s \<and>
         current (closeLB e s) = current s"
proof -
  have nn: "0 \<le> current s" using assms by (simp add: reachable_current_nonneg)
  have a: "in_range (nextLB e s)" if "images s \<noteq> []" using that nn by (rule in_range_nextLB)
  have b: "in_range (prev e s)" if "images s \<noteq> []" using that nn by (rule in_range_prev)
  have c: "in_range (openAt e i s)" if "images s \<noteq> []" "hasLb e" using that by (rule in_range_openAt)
  have d: "in_range (state_of (exec e x s))" if "in_range s" "\<not> is_refresh x"
    using that by (rule in_range_exec)
  have f: "in_range (loaded e nodes)" if "images (loaded e nodes) \<noteq> []"
    using that by (simp add: in_range_def)
  show ?thesis using nn a b c d f by simp
qed

theorem current_valid_until_rescan_witness:
  "in_range (run full_env [OpenAt 2] (loaded full_env three_items)) \<and>
   in_range (state_of (exec full_env Next (run full_env [OpenAt 2] (loaded full_env three_items)))) \<and>
   in_range (openAt full_env 5 (run full_env [OpenAt 2] (loaded full_env three_items))) \<and>
   in_range (loaded full_env three_items) \<and>
   current (refreshGallery full_env one_item (run full_env [OpenAt 2] (loaded full_env three_items))) = 2"
proof -
  let ?s = "run full_env [OpenAt 2] (loaded full_env three_items)"
  have lb: "hasLb full_env" by (simp add: full_env_def)
  have im: "images ?s = images (loaded full_env three_items)" by (simp add: run_def)
  have ne: "images ?s \<noteq> []" by (simp add: im loaded_three_items)
  have c: "current ?s = 2" using lb by (simp add: run_def openAt_current loaded_three_items)
  have r: "in_range ?s" by (simp add: in_range_def c im loaded_three_items)
  have l: "images (loaded full_env three_items) \<noteq> []" by (simp add: loaded_three_items)
  from current_valid_until_rescan [where e = full_env and ops = "[OpenAt 2]" and nodes = three_items
      and i = 5 and x = Next and nodes' = one_item, OF refl]
  show ?thesis using ne lb r l c by (simp del: exec.simps)
qed

text \<open>
  After \<^verbatim>\<open>openAt(2)\<close> on three entries, a re-scan that finds one entry leaves the
  index at 2 with a list of length 1.
\<close>
theorem refresh_leaves_stale_index:
  "images (run full_env [OpenAt 2, Refresh one_item] (loaded full_env three_items)) \<noteq> [] \<and>
   current (run full_env [OpenAt 2, Refresh one_item] (loaded full_env three_items)) = 2 \<and>
   length (images (run full_env [OpenAt 2, Refresh one_item] (loaded full_env three_items))) = 1 \<and>
   \<not> in_range (run full_env [OpenAt 2, Refresh one_item] (loaded full_env three_items))"
proof -
  let ?s = "run full_env [OpenAt 2, Refresh one_item] (loaded full_env three_items)"
  have g: "hasGallery full_env" and lb: "hasLb full_env" by (simp_all add: full_env_def)
  have im: "images ?s = [\<lparr>thumb = ''thumb.jpg'', large = ''thumb.jpg'', alt = ''Image 1'', el = 1\<rparr>]"
    using g by (simp add: run_def refreshGallery_def scan_one_item)
  have c: "current ?s = 2" using lb by (simp add: run_def openAt_current loaded_three_items)
  show ?thesis by (simp add: im c in_range_def)
qed

section \<open>Properties of the gallery index\<close>

text \<open>
  C4 asks that every gallery element carries its click and key handler exactly once
  after any sequence of scans and refreshes. On a page with one item the initial scan
  binds one pair, and a second scan alone adds nothing, as the \<^verbatim>\<open>_bound\<close> guard
  intends; but \<^verbatim>\<open>refreshGallery\<close> deletes the flag before scanning and the old
  listeners stay, so after one refresh the element carries two pairs.
\<close>
theorem refresh_adds_second_listener:
  "listeners (loaded full_env one_item) 1 = [OnClick 0, OnKeydown 0] \<and>
   listeners (scanGallery full_env one_item (loaded full_env one_item)) 1 = [OnClick 0, OnKeydown 0] \<and>
   listeners (run full_env [Refresh one_item] (loaded full_env one_item)) 1 =
     [OnClick 0, OnKeydown 0, OnClick 0, OnKeydown 0]"
  by (simp add: run_def refreshGallery_def loaded_def scanGallery_def Let_def initial_def
      one_item_def full_env_def bind_one_def clear_bound_def)




text \<open>
  C8, as the code has it. The entry made from a node has the image's source as
  thumbnail; its full URL is the \<^verbatim>\<open>data-large\<close> attribute when that is present and not
  empty, and the thumbnail URL when the attribute is absent or empty.
\<close>
theorem full_url_large_or_source:
  assumes "hasGallery e" and "k < length nodes" and "img_child (nodes ! k) = Some im"
  shows "entry_position k nodes < length (images (scanGallery e nodes s)) \<and>
         thumb (images (scanGallery e nodes s) ! entry_position k nodes) = img_src im \<and>
         (\<forall>l. data_large im = Some l \<and> l \<noteq> [] \<longrightarrow>
            large (images (scanGallery e nodes s) ! entry_position k nodes) = l) \<and>
         (data_large im = None \<or> data_large im = Some [] \<longrightarrow>
            large (images (scanGallery e nodes s) ! entry_position k nodes)
              = thumb (images (scanGallery e nodes s) ! entry_position k nodes))"
proof -
  from scanGallery_entry [OF assms, of s]
  have p: "entry_position k nodes < length (images (scanGallery e nodes s))"
    and x: "images (scanGallery e nodes s) ! entry_position k nodes = make_entry k (nodes ! k) im"
    by simp_all
  have t: "thumb (make_entry k (nodes ! k) im) = img_src im" by (simp add: make_entry_def)
  have a: "large (make_entry k (nodes ! k) im) = l" if "data_large im = Some l" "l \<noteq> []" for l
    using that by (simp add: make_entry_def js_or_def)
  have b: "large (make_entry k (nodes ! k) im) = img_src im"
    if "data_large im = None \<or> data_large im = Some []"
    using that by (auto simp add: make_entry_def js_or_def)
  show ?thesis using p x t a b by simp
qed

theorem full_url_large_or_source_witness:
  "hasGallery full_env \<and> 0 < length one_item \<and> 1 < length three_items \<and>
   large (images (scanGallery full_env one_item initial) ! 0) = ''thumb.jpg'' \<and>
   large (images (scanGallery full_env three_items initial) ! 1) = ''B''"
proof -
  have g: "hasGallery full_env" by (simp add: full_env_def)
  have k1: "0 < length one_item" by (simp add: one_item_def)
  have c1: "img_child (one_item ! 0)
      = Some \<lparr>img_src = ''thumb.jpg'', data_large = None, alt_attr = None\<rparr>"
    by (simp add: one_item_def)
  have p1: "entry_position 0 one_item = 0" by (simp add: entry_position_def)
  have k3: "1 < length three_items" by (simp add: three_items_def)
  have c3: "img_child (three_items ! 1)
      = Some \<lparr>img_src = ''b.jpg'', data_large = Some ''B'', alt_attr = Some ''second''\<rparr>"
    by (simp add: three_items_def)
  have p3: "entry_position (Suc 0) three_items = Suc 0"
    by (simp add: entry_position_def three_items_def)
  from full_url_large_or_source [OF g k1 c1, of initial]
    full_url_large_or_source [OF g k3 c3, of initial]
  show ?thesis using g k1 k3 by (simp add: p1 p3)
qed

text \<open>An image whose \<^verbatim>\<open>data-large\<close> attribute is present and empty gets its source.\<close>
theorem empty_large_attribute_falls_back:
  "img_child (empty_large_item ! 0)
     = Some \<lparr>img_src = ''thumb.jpg'', data_large = Some [], alt_attr = None\<rparr> \<and>
   large (images (loaded full_env empty_large_item) ! 0) = ''thumb.jpg''"
  by (simp add: loaded_def scanGallery_def Let_def empty_large_item_def full_env_def
      make_entry_def js_or_def)

end
